theory Spec2Isabelle
  imports
    Main
    "HOL-Library.FSet"
    "HOL-Library.AList"
    "HOL-Library.Char_ord"
    "HOL-Library.List_Lexorder"
begin

section \<open>Exceptions\<close>

text \<open>
  The Python exceptions that the modelled functions raise or catch. Every one of them is a
  subclass of \<open>Exception\<close>; the constructor \<open>OtherException\<close> stands for any
  exception class that the code does not name. A function that can raise returns
  \<open>exn + 'a\<close>, with \<open>Inl\<close> for the exception.
\<close>

datatype exn =
    WebSocketDisconnect
  | WebSocketException string
  | ValueError string
  | NameError string
  | AttributeError string
  | ValidationError string
  | DuplicateIDError string
  | OtherException string

text \<open>
  \<open>str(e)\<close>, as it is interpolated into error frames. A \<open>WebSocketException\<close>
  takes its one positional argument as the code and prints code, colon, space and the
  (empty) reason; \<open>WebSocketDisconnect\<close> passes nothing to \<open>Exception\<close> and prints as
  the empty string.
\<close>

fun str_exn :: "exn \<Rightarrow> string" where
  "str_exn WebSocketDisconnect = []"
| "str_exn (WebSocketException m) = m @ '': ''"
| "str_exn (ValueError m) = m"
| "str_exn (NameError m) = m"
| "str_exn (AttributeError m) = m"
| "str_exn (ValidationError m) = m"
| "str_exn (DuplicateIDError m) = m"
| "str_exn (OtherException m) = m"

section \<open>Document processor: \<open>DocumentProcessor.split_text\<close>\<close>

text \<open>
  \<open>str.isspace\<close> on the characters of the Latin-1 range: the ASCII control
  characters TAB, LF, VT, FF, CR, the separators FS, GS, RS, US, the space, NEL
  (0x85) and the no-break space (0xA0).
\<close>

definition isspace :: "char \<Rightarrow> bool" where
  "isspace c =
     (let n = (of_char c :: nat)
      in (9 \<le> n \<and> n \<le> 13) \<or> (28 \<le> n \<and> n \<le> 32) \<or> n = 133 \<or> n = 160)"

text \<open>\<open>str.strip()\<close>: leading and trailing whitespace removed.\<close>

definition strip :: "string \<Rightarrow> string" where
  "strip s = rev (dropWhile isspace (rev (dropWhile isspace s)))"

text \<open>A metadata dictionary holds integers and strings under string keys.\<close>

datatype meta_value = MInt int | MStr string

record LangchainDocument =
  page_content :: string
  metadata :: "(string \<times> meta_value) list"

text \<open>
  \<open>split_text\<close> returns the empty list for a text that is empty after
  \<open>strip()\<close>, before the splitter is even constructed. The splitter itself
  (\<open>RecursiveCharacterTextSplitter\<close> of the text-splitting library, construction and
  \<open>create_documents\<close> together) is the parameter \<open>splitter\<close>: it receives
  \<open>chunk_size\<close>, \<open>chunk_overlap\<close> and the text, and may raise.
\<close>

definition split_text ::
  "(int \<Rightarrow> int \<Rightarrow> string \<Rightarrow> exn + LangchainDocument list) \<Rightarrow>
   string \<Rightarrow> int \<Rightarrow> int \<Rightarrow> exn + LangchainDocument list" where
  "split_text splitter text chunk_size chunk_overlap =
     (if strip text = [] then Inr []
      else splitter chunk_size chunk_overlap text)"

section \<open>Connection registry: \<open>ConnectionManager\<close>\<close>

text \<open>
  A transport handle (the \<open>WebSocket\<close> object) is identified by a number. What a call
  on the transport does (\<open>accept\<close>, \<open>send_json\<close>, \<open>close\<close>) is decided by the
  peer and the network, so every operation of the registry takes the outcome of each
  transport call it makes as an argument: \<open>None\<close> when the call returns, \<open>Some e\<close>
  when it raises \<open>e\<close>.

  Both dictionaries keep Python's insertion order, which the reverse lookup of
  \<open>disconnect\<close> iterates, so they are association lists; \<open>k in d\<close> is
  \<open>map_of d k \<noteq> None\<close>. A connection set is a finite set.
\<close>

type_synonym websocket = nat

record ConnectionManager =
  active_connections :: "(string \<times> websocket) list"
  user_connections :: "(int \<times> string fset) list"

text \<open>\<open>__init__\<close>, and the module's global instance \<open>manager\<close>.\<close>

definition manager :: ConnectionManager where
  "manager = \<lparr>active_connections = [], user_connections = []\<rparr>"

text \<open>
  \<open>connect\<close>. The identifier \<open>connection_id\<close> is the value of
  \<open>str(uuid.uuid4())\<close>, drawn before the handshake. Any exception of \<open>accept\<close>
  is replaced by a \<open>WebSocketException\<close>, and nothing has been registered then.
\<close>

definition connect ::
  "ConnectionManager \<Rightarrow> websocket \<Rightarrow> int \<Rightarrow> string \<Rightarrow> exn option \<Rightarrow>
   exn + (string \<times> ConnectionManager)" where
  "connect self websocket user_id connection_id accept_res =
     (case accept_res of
        Some e \<Rightarrow> Inl (WebSocketException ''Failed to establish WebSocket connection'')
      | None \<Rightarrow>
          (let ac = AList.update connection_id websocket (active_connections self);
               uc0 = (if map_of (user_connections self) user_id = None
                      then AList.update user_id {||} (user_connections self)
                      else user_connections self);
               uc = AList.map_entry user_id (finsert connection_id) uc0
           in Inr (connection_id, \<lparr>active_connections = ac, user_connections = uc\<rparr>)))"

text \<open>
  The reverse lookup of \<open>disconnect\<close>: the first user, in dictionary order, whose
  connection set holds the identifier.
\<close>

fun find_user :: "(int \<times> string fset) list \<Rightarrow> string \<Rightarrow> int option" where
  "find_user [] connection_id = None"
| "find_user ((uid, conn_ids) # rest) connection_id =
     (if connection_id |\<in>| conn_ids then Some uid else find_user rest connection_id)"

text \<open>
  \<open>disconnect\<close>. An exception of \<open>close\<close> is caught and logged, and the
  \<open>finally\<close> clause removes the entry on both paths.
\<close>

definition disconnect ::
  "ConnectionManager \<Rightarrow> string \<Rightarrow> int option \<Rightarrow> exn option \<Rightarrow> exn + ConnectionManager" where
  "disconnect self connection_id user_id close_res =
     (let uid =
            (case user_id of
               None \<Rightarrow> find_user (user_connections self) connection_id
             | Some u \<Rightarrow> Some u);
          ac =
            (if map_of (active_connections self) connection_id \<noteq> None
             then (case close_res of
                     None \<Rightarrow> AList.delete connection_id (active_connections self)
                   | Some e \<Rightarrow> AList.delete connection_id (active_connections self))
             else active_connections self);
          uc =
            (case uid of
               None \<Rightarrow> user_connections self
             | Some u \<Rightarrow>
                 (case map_of (user_connections self) u of
                    None \<Rightarrow> user_connections self
                  | Some conn_ids \<Rightarrow>
                      (let conn_ids' = conn_ids |-| {|connection_id|}
                       in if conn_ids' = {||}
                          then AList.delete u (user_connections self)
                          else AList.update u conn_ids' (user_connections self))))
      in Inr \<lparr>active_connections = ac, user_connections = uc\<rparr>)"

text \<open>
  \<open>send_message\<close>. Both handlers, the one for \<open>WebSocketDisconnect\<close> and the one
  for any other exception, disconnect the connection (no \<open>user_id\<close> given) and
  return \<open>False\<close>.
\<close>

definition send_message ::
  "ConnectionManager \<Rightarrow> 'm \<Rightarrow> string \<Rightarrow> exn option \<Rightarrow> exn option \<Rightarrow>
   exn + (bool \<times> ConnectionManager)" where
  "send_message self message connection_id send_res close_res =
     (if map_of (active_connections self) connection_id = None then Inr (False, self)
      else
        (case send_res of
           None \<Rightarrow> Inr (True, self)
         | Some WebSocketDisconnect \<Rightarrow>
             (case disconnect self connection_id None close_res of
                Inl e \<Rightarrow> Inl e
              | Inr self' \<Rightarrow> Inr (False, self'))
         | Some e \<Rightarrow>
             (case disconnect self connection_id None close_res of
                Inl e' \<Rightarrow> Inl e'
              | Inr self' \<Rightarrow> Inr (False, self'))))"

text \<open>
  \<open>broadcast_to_user\<close> iterates over a snapshot of the user's connection set. The
  order in which Python lists a set is unspecified; the model takes the sorted order.
  The outcomes of the transport calls are given per connection.
\<close>

fun send_each ::
  "ConnectionManager \<Rightarrow> 'm \<Rightarrow> string list \<Rightarrow> (string \<Rightarrow> exn option) \<Rightarrow>
   (string \<Rightarrow> exn option) \<Rightarrow> nat \<Rightarrow> exn + (nat \<times> ConnectionManager)" where
  "send_each self message [] send_res close_res success_count = Inr (success_count, self)"
| "send_each self message (connection_id # rest) send_res close_res success_count =
     (case send_message self message connection_id
             (send_res connection_id) (close_res connection_id) of
        Inl e \<Rightarrow> Inl e
      | Inr (ok, self') \<Rightarrow>
          send_each self' message rest send_res close_res
            (if ok then success_count + 1 else success_count))"

definition broadcast_to_user ::
  "ConnectionManager \<Rightarrow> 'm \<Rightarrow> int \<Rightarrow> (string \<Rightarrow> exn option) \<Rightarrow>
   (string \<Rightarrow> exn option) \<Rightarrow> exn + (nat \<times> ConnectionManager)" where
  "broadcast_to_user self message user_id send_res close_res =
     (case map_of (user_connections self) user_id of
        None \<Rightarrow> Inr (0, self)
      | Some conn_ids \<Rightarrow>
          send_each self message (sorted_list_of_fset conn_ids) send_res close_res 0)"

definition get_connection_count :: "ConnectionManager \<Rightarrow> int option \<Rightarrow> nat" where
  "get_connection_count self user_id =
     (case user_id of
        Some u \<Rightarrow>
          (case map_of (user_connections self) u of
             None \<Rightarrow> 0
           | Some conn_ids \<Rightarrow> fcard conn_ids)
      | None \<Rightarrow> length (active_connections self))"

subsection \<open>Sequences of registry operations\<close>

text \<open>
  A call of one of the four mutating operations, with its arguments and the outcomes of
  the transport calls it makes. A call that raises leaves the registry as it was.
\<close>

datatype 'm registry_op =
    Connect websocket int string "exn option"
  | Disconnect string "int option" "exn option"
  | Send 'm string "exn option" "exn option"
  | Broadcast 'm int "string \<Rightarrow> exn option" "string \<Rightarrow> exn option"

fun apply_op :: "ConnectionManager \<Rightarrow> 'm registry_op \<Rightarrow> ConnectionManager" where
  "apply_op r (Connect ws u c a) =
     (case connect r ws u c a of Inl e \<Rightarrow> r | Inr (c', r') \<Rightarrow> r')"
| "apply_op r (Disconnect c u cl) =
     (case disconnect r c u cl of Inl e \<Rightarrow> r | Inr r' \<Rightarrow> r')"
| "apply_op r (Send m c s cl) =
     (case send_message r m c s cl of Inl e \<Rightarrow> r | Inr (ok, r') \<Rightarrow> r')"
| "apply_op r (Broadcast m u s cl) =
     (case broadcast_to_user r m u s cl of Inl e \<Rightarrow> r | Inr (n, r') \<Rightarrow> r')"

fun run_ops :: "ConnectionManager \<Rightarrow> 'm registry_op list \<Rightarrow> ConnectionManager" where
  "run_ops r [] = r"
| "run_ops r (x # xs) = run_ops (apply_op r x) xs"

text \<open>
  A registry is well formed when its user map has no key twice (it is a dictionary) and
  the connection sets of different users are disjoint: a connection belongs to one user.
\<close>

fun disjoint_sets :: "(int \<times> string fset) list \<Rightarrow> bool" where
  "disjoint_sets [] = True"
| "disjoint_sets ((uid, conn_ids) # rest) =
     (list_all (\<lambda>(uid', conn_ids'). conn_ids |\<inter>| conn_ids' = {||}) rest \<and>
      disjoint_sets rest)"

definition well_formed :: "ConnectionManager \<Rightarrow> bool" where
  "well_formed r =
     (distinct (map fst (user_connections r)) \<and> disjoint_sets (user_connections r))"

text \<open>
  The two maps are consistent: every identifier in a user's connection set is a key of
  \<open>active_connections\<close>, and no user is mapped to the empty set.
\<close>

definition consistent :: "ConnectionManager \<Rightarrow> bool" where
  "consistent r =
     list_all (\<lambda>(u, conn_ids).
         conn_ids \<noteq> {||} \<and>
         fBall conn_ids (\<lambda>c. map_of (active_connections r) c \<noteq> None))
       (user_connections r)"

text \<open>
  An identifier is in use when it is a key of \<open>active_connections\<close> or a member of
  some user's connection set.
\<close>

definition in_use :: "ConnectionManager \<Rightarrow> string \<Rightarrow> bool" where
  "in_use r c =
     (map_of (active_connections r) c \<noteq> None \<or>
      list_ex (\<lambda>(u, conn_ids). c |\<in>| conn_ids) (user_connections r))"

text \<open>
  The way the endpoint uses the registry: \<open>uuid4\<close> yields an identifier that is not
  in use, and a \<open>user_id\<close> passed to \<open>disconnect\<close> is the one the connection was
  registered with (the reverse lookup finds no other owner).
\<close>

fun op_ok :: "ConnectionManager \<Rightarrow> 'm registry_op \<Rightarrow> bool" where
  "op_ok r (Connect ws u c a) = (\<not> in_use r c)"
| "op_ok r (Disconnect c None cl) = True"
| "op_ok r (Disconnect c (Some u) cl) =
     (case find_user (user_connections r) c of None \<Rightarrow> True | Some u' \<Rightarrow> u' = u)"
| "op_ok r (Send m c s cl) = True"
| "op_ok r (Broadcast m u s cl) = True"

fun ops_ok :: "ConnectionManager \<Rightarrow> 'm registry_op list \<Rightarrow> bool" where
  "ops_ok r [] = True"
| "ops_ok r (x # xs) = (op_ok r x \<and> ops_ok (apply_op r x) xs)"

text \<open>
  The weaker condition that only asks the identifiers of \<open>connect\<close> to be new, and
  lets \<open>disconnect\<close> be called with any \<open>user_id\<close>.
\<close>

fun op_fresh :: "ConnectionManager \<Rightarrow> 'm registry_op \<Rightarrow> bool" where
  "op_fresh r (Connect ws u c a) = (\<not> in_use r c)"
| "op_fresh r (Disconnect c u cl) = True"
| "op_fresh r (Send m c s cl) = True"
| "op_fresh r (Broadcast m u s cl) = True"

fun ops_fresh :: "ConnectionManager \<Rightarrow> 'm registry_op list \<Rightarrow> bool" where
  "ops_fresh r [] = True"
| "ops_fresh r (x # xs) = (op_fresh r x \<and> ops_fresh (apply_op r x) xs)"

section \<open>Vector index: \<open>VectorStoreManager\<close>\<close>

record DocumentChunk =
  chunk_id :: int
  chunk_document_id :: int
  chunk_index :: int
  chunk_content :: string
  content_hash :: string
  page_number :: "int option"
  section_title :: "string option"

text \<open>\<open>str(n)\<close> for a Python integer: decimal digits, with a minus sign when negative.\<close>

fun str_nat :: "nat \<Rightarrow> string" where
  "str_nat n =
     (if n < 10 then [char_of (48 + n)]
      else str_nat (n div 10) @ [char_of (48 + n mod 10)])"

definition str_int :: "int \<Rightarrow> string" where
  "str_int i = (if i < 0 then CHR ''-'' # str_nat (nat (- i)) else str_nat (nat i))"

text \<open>
  The identifier under which a chunk is written:
  \<open>f"doc_{document_id}_chunk_{chunk.chunk_index}"\<close>.
\<close>

definition chunk_key :: "int \<Rightarrow> DocumentChunk \<Rightarrow> string" where
  "chunk_key document_id chunk =
     ''doc_'' @ str_int document_id @ ''_chunk_'' @ str_int (chunk_index chunk)"

text \<open>
  The metadata of a chunk. \<open>page_number\<close> is added when it is not \<open>None\<close>,
  \<open>section_title\<close> when it is neither \<open>None\<close> nor the empty string.
\<close>

definition chunk_metadata :: "int \<Rightarrow> DocumentChunk \<Rightarrow> (string \<times> meta_value) list" where
  "chunk_metadata document_id chunk =
     [(''document_id'', MInt document_id),
      (''chunk_id'', MInt (chunk_id chunk)),
      (''chunk_index'', MInt (chunk_index chunk))]
     @ (case page_number chunk of None \<Rightarrow> [] | Some n \<Rightarrow> [(''page_number'', MInt n)])
     @ (case section_title chunk of
          None \<Rightarrow> []
        | Some t \<Rightarrow> if t = [] then [] else [(''section_title'', MStr t)])"

definition chunk_document :: "int \<Rightarrow> DocumentChunk \<Rightarrow> LangchainDocument" where
  "chunk_document document_id chunk =
     \<lparr>page_content = chunk_content chunk, metadata = chunk_metadata document_id chunk\<rparr>"

text \<open>
  The collection of the vector database is a dictionary from identifiers to the stored
  documents (the embedding of an entry is a function of its text and is not kept
  apart). \<open>write_entries\<close> puts the entries of a batch under their identifiers,
  replacing the entry of an identifier that is present and appending one that is not.
\<close>

record VectorStoreManager =
  vector_store :: "(string \<times> LangchainDocument) list"

fun write_entries ::
  "(string \<times> LangchainDocument) list \<Rightarrow> (string \<times> LangchainDocument) list \<Rightarrow>
   (string \<times> LangchainDocument) list" where
  "write_entries store [] = store"
| "write_entries store ((k, doc) # rest) = write_entries (AList.update k doc store) rest"

text \<open>
  The call \<open>self.vector_store.add_documents(documents=documents, ids=ids)\<close> of the
  database library, an upsert of the batch. The library refuses a batch whose lists
  differ in length, and it refuses a batch in which an identifier occurs twice
  (\<open>DuplicateIDError\<close>); nothing is written then. Otherwise the batch is written and
  the identifiers are handed back. Persisting to disk is not modelled.
\<close>

definition store_add_documents ::
  "(string \<times> LangchainDocument) list \<Rightarrow> LangchainDocument list \<Rightarrow> string list \<Rightarrow>
   exn + (string list \<times> (string \<times> LangchainDocument) list)" where
  "store_add_documents store documents ids =
     (if length ids \<noteq> length documents
      then Inl (ValueError ''Number of ids does not match number of documents'')
      else if \<not> distinct ids
      then Inl (DuplicateIDError ''Expected IDs to be unique'')
      else Inr (ids, write_entries store (zip ids documents)))"

text \<open>
  \<open>add_documents\<close>. Without \<open>ids\<close> the identifiers are the SHA-256 digests of the
  texts; the digest function is the parameter \<open>sha256\<close>. An exception of the library
  call is not caught.
\<close>

definition add_documents ::
  "(string \<Rightarrow> string) \<Rightarrow> VectorStoreManager \<Rightarrow> LangchainDocument list \<Rightarrow>
   string list option \<Rightarrow> exn + (string list \<times> VectorStoreManager)" where
  "add_documents sha256 self documents ids =
     (if documents = [] then Inr ([], self)
      else
        (let ids' = (case ids of
                       None \<Rightarrow> map (\<lambda>doc. sha256 (page_content doc)) documents
                     | Some l \<Rightarrow> l)
         in (case store_add_documents (vector_store self) documents ids' of
               Inl e \<Rightarrow> Inl e
             | Inr (doc_ids, store') \<Rightarrow> Inr (doc_ids, self\<lparr>vector_store := store'\<rparr>))))"

definition add_document_chunks ::
  "(string \<Rightarrow> string) \<Rightarrow> VectorStoreManager \<Rightarrow> DocumentChunk list \<Rightarrow> int \<Rightarrow>
   exn + (string list \<times> VectorStoreManager)" where
  "add_document_chunks sha256 self chunks document_id =
     (if chunks = [] then Inr ([], self)
      else add_documents sha256 self
             (map (chunk_document document_id) chunks)
             (Some (map (chunk_key document_id) chunks)))"

text \<open>The number of entries of the index.\<close>

definition element_count :: "VectorStoreManager \<Rightarrow> nat" where
  "element_count self = length (vector_store self)"

section \<open>Retrieval and generation: \<open>RAGService\<close>\<close>

text \<open>\<open>d.get(k, default)\<close> on a metadata dictionary.\<close>

definition dict_get :: "(string \<times> meta_value) list \<Rightarrow> string \<Rightarrow> meta_value \<Rightarrow> meta_value" where
  "dict_get d k dflt = (case map_of d k of None \<Rightarrow> dflt | Some v \<Rightarrow> v)"

text \<open>What the question-answering chain returns, and what \<open>query\<close> makes of it.\<close>

record chain_result =
  result :: string
  source_documents :: "LangchainDocument list"

record rag_source =
  source :: meta_value
  page :: meta_value
  source_content :: string

record rag_answer =
  answer :: string
  sources :: "rag_source list"

text \<open>
  Of the service object only \<open>qa_chain\<close> matters to \<open>query\<close>. The chain is the
  object that the chain library builds from the language model and the retriever of the
  vector store; calling it with a question returns a result or raises.
\<close>

record RAGService =
  qa_chain :: "(string \<Rightarrow> exn + chain_result) option"

text \<open>
  \<open>__init__\<close>. Loading the embedding model and the language model may raise
  (\<open>load_res\<close>). The store is the one of the global \<open>vector_store_manager\<close>,
  whatever it holds, and the chain over it is built unconditionally:
  \<open>retrieval_qa\<close> stands for \<open>RetrievalQA.from_chain_type\<close> applied to the model
  and the retriever of that store.
\<close>

definition RAGService_init ::
  "exn option \<Rightarrow> ((string \<times> LangchainDocument) list \<Rightarrow> string \<Rightarrow> exn + chain_result) \<Rightarrow>
   VectorStoreManager \<Rightarrow> exn + RAGService" where
  "RAGService_init load_res retrieval_qa vector_store_manager =
     (case load_res of
        Some e \<Rightarrow> Inl e
      | None \<Rightarrow> Inr \<lparr>qa_chain = Some (retrieval_qa (vector_store vector_store_manager))\<rparr>)"

definition format_source :: "LangchainDocument \<Rightarrow> rag_source" where
  "format_source doc =
     \<lparr>source = dict_get (metadata doc) ''source'' (MStr ''Unknown''),
      page = dict_get (metadata doc) ''page'' (MStr ''N/A''),
      source_content =
        take 500 (page_content doc) @ (if length (page_content doc) > 500 then ''...'' else [])\<rparr>"

definition query :: "RAGService \<Rightarrow> string \<Rightarrow> exn + rag_answer" where
  "query self question =
     (case qa_chain self of
        None \<Rightarrow> Inl (ValueError ''Please load documents and create vector store first.'')
      | Some chain \<Rightarrow>
          (case chain question of
             Inl e \<Rightarrow> Inl e
           | Inr res \<Rightarrow>
               Inr \<lparr>answer = result res,
                    sources = map format_source (source_documents res)\<rparr>))"

section \<open>Conversation orchestrator: \<open>process_chat_message\<close>\<close>

subsection \<open>Frames\<close>

datatype ChatMessageType = SYSTEM | USER | ASSISTANT | ERROR | TYPING

record DocumentReference =
  ref_id :: int
  ref_title :: string
  snippet :: string
  ref_page_number :: "int option"

text \<open>
  The metadata dictionaries that the endpoint puts on frames: \<open>{"error": True}\<close>,
  \<open>{"sources": ...}\<close> (a list or \<open>None\<close>), \<open>{"status": ...}\<close> and
  \<open>{"title": ...}\<close>.
\<close>

datatype frame_meta =
    MetaError
  | MetaSources "DocumentReference list option"
  | MetaStatus string
  | MetaTitle string

text \<open>
  The keyword arguments of a call \<open>ChatResponse(...)\<close>, and the object that the call
  yields when it succeeds. \<open>frame_id\<close> is the argument \<open>id\<close>, \<open>None\<close> when the
  call does not pass it; a field that is not given otherwise has its default. The
  timestamp (the wall clock) is left out.
\<close>

record ChatResponse =
  frame_id :: "string option"
  frame_type :: ChatMessageType
  frame_content :: string
  frame_conversation_id :: "int option"
  is_partial :: bool
  query_id :: "int option"
  frame_sources :: "DocumentReference list option"
  frame_metadata :: "frame_meta option"

text \<open>
  Constructing a \<open>ChatResponse\<close>. The schema inherits \<open>id: str = Field(...)\<close> from
  \<open>ChatMessage\<close>, a required field without a default, so the construction raises
  \<open>ValidationError\<close> when \<open>id\<close> is not passed.
\<close>

definition new_ChatResponse :: "ChatResponse \<Rightarrow> exn + ChatResponse" where
  "new_ChatResponse kwargs =
     (case frame_id kwargs of
        None \<Rightarrow> Inl (ValidationError ''id: field required'')
      | Some i \<Rightarrow> Inr kwargs)"

record ChatMessageRequest =
  message :: string
  conversation_id :: "int option"
  document_ids :: "int list option"
  stream :: "bool option"

text \<open>
  The arguments of the \<open>ChatResponse(...)\<close> calls of the module, under the names of
  the variables they are assigned to. None of the calls passes \<open>id\<close>.
  \<open>error_msg\<close> is the one of \<open>_send_error\<close>.
\<close>

definition error_msg :: "string \<Rightarrow> int option \<Rightarrow> ChatResponse" where
  "error_msg text conv =
     \<lparr>frame_id = None, frame_type = ERROR, frame_content = text,
      frame_conversation_id = conv,
      is_partial = False, query_id = None, frame_sources = None,
      frame_metadata = Some MetaError\<rparr>"

definition typing_msg :: "int option \<Rightarrow> ChatResponse" where
  "typing_msg conv =
     \<lparr>frame_id = None, frame_type = TYPING, frame_content = [],
      frame_conversation_id = conv,
      is_partial = False, query_id = None, frame_sources = None,
      frame_metadata = None\<rparr>"

definition new_conv_msg :: "int \<Rightarrow> string \<Rightarrow> ChatResponse" where
  "new_conv_msg conv title =
     \<lparr>frame_id = None, frame_type = SYSTEM,
      frame_content = ''New conversation started: '' @ title,
      frame_conversation_id = Some conv,
      is_partial = False, query_id = None, frame_sources = None,
      frame_metadata = Some (MetaTitle title)\<rparr>"

subsection \<open>Sending the response\<close>

text \<open>\<open>range(i, n, step)\<close> for a positive step, as the loop visits it.\<close>

function py_range :: "nat \<Rightarrow> nat \<Rightarrow> nat \<Rightarrow> nat list" where
  "py_range i n step =
     (if step = 0 \<or> n \<le> i then [] else i # py_range (i + step) n step)"
  by pat_completeness auto
termination
  by (relation "measure (\<lambda>(i, n, step). n - i)") auto

declare py_range.simps [simp del]

definition chunk_size :: nat where
  "chunk_size = 10"

text \<open>
  The arguments of \<open>response_msg\<close> in one round of the streaming loop, for the slice
  that starts at \<open>i\<close>. The sources are in the metadata of the round with
  \<open>i + chunk_size >= len(response_text)\<close>.
\<close>

definition partial_msg ::
  "string \<Rightarrow> int option \<Rightarrow> int \<Rightarrow> DocumentReference list \<Rightarrow> nat \<Rightarrow> ChatResponse" where
  "partial_msg response_text qid conv refs i =
     \<lparr>frame_id = None, frame_type = ASSISTANT,
      frame_content = take chunk_size (drop i response_text),
      frame_conversation_id = Some conv,
      is_partial = True, query_id = qid, frame_sources = None,
      frame_metadata =
        Some (MetaSources (if i + chunk_size \<ge> length response_text then Some refs else None))\<rparr>"

text \<open>
  The arguments of \<open>final_msg\<close>, and of \<open>response_msg\<close> when streaming is off: the
  two calls pass the same.
\<close>

definition final_msg ::
  "string \<Rightarrow> int option \<Rightarrow> int \<Rightarrow> DocumentReference list \<Rightarrow> ChatResponse" where
  "final_msg response_text qid conv refs =
     \<lparr>frame_id = None, frame_type = ASSISTANT, frame_content = response_text,
      frame_conversation_id = Some conv,
      is_partial = False, query_id = qid, frame_sources = Some refs,
      frame_metadata = Some (MetaStatus ''complete'')\<rparr>"

text \<open>
  The constructions of the block that sends the response, in the order in which the
  block reaches them. \<open>if message.stream\<close> holds for \<open>True\<close> only.
\<close>

definition response_msgs ::
  "ChatMessageRequest \<Rightarrow> string \<Rightarrow> int option \<Rightarrow> int \<Rightarrow> DocumentReference list \<Rightarrow>
   ChatResponse list" where
  "response_msgs request response_text qid conv refs =
     (if stream request = Some True
      then map (partial_msg response_text qid conv refs)
             (py_range 0 (length response_text) chunk_size)
           @ (if length response_text mod chunk_size = 0
              then [final_msg response_text qid conv refs] else [])
      else [final_msg response_text qid conv refs])"

text \<open>
  Constructing and sending one after the other: the first construction that raises
  ends it, with the frames sent before. The result of \<open>send_message\<close> is never looked
  at, and \<open>send_message\<close> does not raise.
\<close>

fun send_all :: "ChatResponse list \<Rightarrow> exn option \<times> ChatResponse list" where
  "send_all [] = (None, [])"
| "send_all (kwargs # rest) =
     (case new_ChatResponse kwargs of
        Inl e \<Rightarrow> (Some e, [])
      | Inr frame \<Rightarrow>
          (case send_all rest of (raised, sent) \<Rightarrow> (raised, frame # sent)))"

subsection \<open>Persisted state\<close>

text \<open>
  The rows of the three tables that a turn can touch. Of the metadata dictionaries the
  keys that the endpoint writes are kept, except the sampling temperature, a float that
  is only copied. Timestamps are numbers.
\<close>

record ConversationModel =
  conv_id :: int
  conv_user_id :: int
  title :: string
  updated_at :: nat
  conv_document_ids :: "int list option"
  last_question :: "string option"
  source_count :: "nat option"

record message_source =
  src_document_id :: int
  src_title :: string

record MessageModel =
  msg_conversation_id :: int
  role :: string
  content :: string
  msg_document_ids :: "int list option"
  msg_query_id :: "int option"
  msg_sources :: "message_source list option"

datatype QueryStatus = PENDING | PROCESSING | COMPLETED | FAILED

record QueryModel =
  query_row_id :: int
  query_text :: string
  status :: QueryStatus
  error_message :: "string option"

record Database =
  conversations :: "ConversationModel list"
  messages :: "MessageModel list"
  queries :: "QueryModel list"

subsection \<open>One turn\<close>

text \<open>
  The loop body that turns a source of the answer into a \<open>DocumentReference\<close>. The
  module does not import \<open>os\<close>, so building the \<open>title\<close> entry with
  \<open>os.path.basename\<close> raises \<open>NameError\<close> for every source; the handler of the loop
  logs it and goes on to the next source.
\<close>

definition document_reference :: "rag_source \<Rightarrow> exn + DocumentReference" where
  "document_reference src = Inl (NameError ''name os is not defined'')"

fun extract_sources :: "rag_source list \<Rightarrow> DocumentReference list" where
  "extract_sources [] = []"
| "extract_sources (src # rest) =
     (case document_reference src of
        Inl e \<Rightarrow> extract_sources rest
      | Inr r \<Rightarrow> r # extract_sources rest)"

text \<open>
  The entry of a source in the metadata of the assistant message. It reads
  \<open>src.metadata\<close>, an attribute that \<open>DocumentReference\<close> does not have, so the list
  comprehension raises as soon as there is a source to convert.
\<close>

definition message_source_entry :: "DocumentReference \<Rightarrow> exn + message_source" where
  "message_source_entry src = Inl (AttributeError ''metadata'')"

fun message_sources :: "DocumentReference list \<Rightarrow> exn + message_source list" where
  "message_sources [] = Inr []"
| "message_sources (src # rest) =
     (case message_source_entry src of
        Inl e \<Rightarrow> Inl e
      | Inr m \<Rightarrow>
          (case message_sources rest of Inl e \<Rightarrow> Inl e | Inr ms \<Rightarrow> Inr (m # ms)))"

definition user_message :: "ChatMessageRequest \<Rightarrow> ConversationModel \<Rightarrow> MessageModel" where
  "user_message request conversation =
     \<lparr>msg_conversation_id = conv_id conversation, role = ''user'',
      content = message request, msg_document_ids = document_ids request,
      msg_query_id = None, msg_sources = None\<rparr>"

definition assistant_message ::
  "ConversationModel \<Rightarrow> string \<Rightarrow> int option \<Rightarrow> message_source list \<Rightarrow> MessageModel" where
  "assistant_message conversation text qid srcs =
     \<lparr>msg_conversation_id = conv_id conversation, role = ''assistant'',
      content = text, msg_document_ids = None,
      msg_query_id = qid, msg_sources = Some srcs\<rparr>"

definition touch_conversation ::
  "ChatMessageRequest \<Rightarrow> nat \<Rightarrow> nat \<Rightarrow> ConversationModel \<Rightarrow> ConversationModel" where
  "touch_conversation request now n c =
     c\<lparr>updated_at := now,
       last_question := Some (take 200 (message request)),
       conv_document_ids :=
         Some (case document_ids request of None \<Rightarrow> [] | Some l \<Rightarrow> l),
       source_count := Some n\<rparr>"

text \<open>
  The result of a stretch of the function: the exception that ended it, if any, the
  frames handed to \<open>send_message\<close> in it, in order, and the database as committed.

  \<open>answer_turn\<close> is the part of the \<open>try\<close> block after the conversation is
  resolved: the user message is committed, the service is built (\<open>service\<close> is the
  outcome of \<open>RAGService()\<close>) and queried, the sources are extracted, the assistant
  message and the conversation are committed, and the response is sent. The answer
  dictionary has no \<open>query_id\<close> key, so \<open>result.get("query_id")\<close> is \<open>None\<close>.
  No statement reads or writes a \<open>Query\<close> row.
\<close>

definition answer_turn ::
  "(exn + RAGService) \<Rightarrow> ChatMessageRequest \<Rightarrow> nat \<Rightarrow> ConversationModel \<Rightarrow> Database \<Rightarrow>
   exn option \<times> ChatResponse list \<times> Database" where
  "answer_turn service request now conversation db1 =
     (let db2 = db1\<lparr>messages := messages db1 @ [user_message request conversation]\<rparr>
      in (case (case service of
                  Inl e \<Rightarrow> Inl e
                | Inr rag_service \<Rightarrow> query rag_service (message request)) of
            Inl e \<Rightarrow> (Some e, [], db2)
          | Inr res \<Rightarrow>
              (let refs = extract_sources (sources res)
               in (case message_sources refs of
                     Inl e \<Rightarrow> (Some e, [], db2)
                   | Inr srcs \<Rightarrow>
                       (let db3 =
                              db2\<lparr>messages := messages db2 @
                                     [assistant_message conversation (answer res) None srcs],
                                   conversations :=
                                     map (\<lambda>c. if conv_id c = conv_id conversation
                                               then touch_conversation request now
                                                      (length refs) c
                                               else c)
                                       (conversations db2)\<rparr>
                        in (case send_all (response_msgs request (answer res) None
                                             (conv_id conversation) refs) of
                              (raised, sent) \<Rightarrow> (raised, sent, db3)))))))"

text \<open>
  The \<open>try\<close> block. A \<open>conversation_id\<close> that is \<open>None\<close> or \<open>0\<close> is falsy and
  starts a new conversation, whose id the database assigns (\<open>new_id\<close>) and which is
  announced with a system frame. Otherwise the first conversation with that id that
  belongs to the user is taken; when there is none, \<open>_send_error\<close> reports it and the
  function returns.
\<close>

definition try_block ::
  "(exn + RAGService) \<Rightarrow> ChatMessageRequest \<Rightarrow> int \<Rightarrow> Database \<Rightarrow> nat \<Rightarrow> int \<Rightarrow>
   exn option \<times> ChatResponse list \<times> Database" where
  "try_block service request user_id db now new_id =
     (if conversation_id request \<noteq> None \<and> conversation_id request \<noteq> Some 0
      then
        (case find (\<lambda>c. Some (conv_id c) = conversation_id request \<and> conv_user_id c = user_id)
                (conversations db) of
           None \<Rightarrow>
             (case new_ChatResponse (error_msg ''Conversation not found'' None) of
                Inl e \<Rightarrow> (Some e, [], db)
              | Inr frame \<Rightarrow> (None, [frame], db))
         | Some conversation \<Rightarrow> answer_turn service request now conversation db)
      else
        (let conversation =
               \<lparr>conv_id = new_id, conv_user_id = user_id,
                title = take 100 (message request), updated_at = now,
                conv_document_ids = document_ids request,
                last_question = None, source_count = None\<rparr>;
             db1 = db\<lparr>conversations := conversations db @ [conversation]\<rparr>
         in (case new_ChatResponse
                   (new_conv_msg (conv_id conversation) (title conversation)) of
               Inl e \<Rightarrow> (Some e, [], db1)
             | Inr frame \<Rightarrow>
                 (case answer_turn service request now conversation db1 of
                    (raised, sent, db') \<Rightarrow> (raised, frame # sent, db')))))"

text \<open>
  \<open>process_chat_message\<close>. The typing indicator is built and sent before the
  \<open>try\<close> block, so an exception there leaves the function. An exception in the
  \<open>try\<close> block is handled by \<open>_send_error\<close>, whose own exception leaves the
  function too. The arguments \<open>now\<close> and \<open>new_id\<close> are the clock and the id that the
  database gives a new conversation.
\<close>

definition process_chat_message ::
  "(exn + RAGService) \<Rightarrow> ChatMessageRequest \<Rightarrow> int \<Rightarrow> Database \<Rightarrow> nat \<Rightarrow> int \<Rightarrow>
   exn option \<times> ChatResponse list \<times> Database" where
  "process_chat_message service request user_id db now new_id =
     (case new_ChatResponse (typing_msg (conversation_id request)) of
        Inl e \<Rightarrow> (Some e, [], db)
      | Inr typing \<Rightarrow>
          (case try_block service request user_id db now new_id of
             (None, sent, db') \<Rightarrow> (None, typing # sent, db')
           | (Some e, sent, db') \<Rightarrow>
               (case new_ChatResponse
                       (error_msg
                          (''An error occurred while processing your request: '' @ str_exn e)
                          (conversation_id request)) of
                  Inl e' \<Rightarrow> (Some e', typing # sent, db')
                | Inr frame \<Rightarrow> (None, typing # sent @ [frame], db'))))"

section \<open>Properties of the document processor\<close>

lemma dropWhile_all_nil: "list_all P s \<Longrightarrow> dropWhile P s = []"
  by (induction s) auto

lemma strip_whitespace_only: "list_all isspace s \<Longrightarrow> strip s = []"
  by (simp add: strip_def dropWhile_all_nil)

text \<open>
  Claim C8. For every chunk size and chunk overlap (and whatever the splitter would do
  with them), a text that consists of whitespace characters only, the empty text
  included, is split into zero chunks, and the call returns normally.
\<close>

theorem split_text_blank:
  "list_all isspace text \<Longrightarrow>
   split_text splitter text csize coverlap = Inr []"
  by (simp add: split_text_def strip_whitespace_only)

theorem split_text_blank_witness:
  "list_all isspace [CHR '' '', CHR 0x0A, CHR 0x09] \<and>
   split_text (\<lambda>cs co t. Inl (ValueError ''chunk overlap larger than chunk size''))
     [CHR '' '', CHR 0x0A, CHR 0x09] 10 20 = Inr []"
proof -
  have h: "list_all isspace [CHR '' '', CHR 0x0A, CHR 0x09]"
    by (simp add: isspace_def)
  show ?thesis
    using h split_text_blank [OF h] by simp
qed

section \<open>Properties of the vector index\<close>

lemma write_entries_other:
  "k \<notin> fst ` set xs \<Longrightarrow> map_of (write_entries store xs) k = map_of store k"
  by (induction store xs rule: write_entries.induct) (auto simp: update_conv')

lemma write_entries_written:
  "distinct (map fst xs) \<Longrightarrow>
   list_all (\<lambda>(k, doc). map_of (write_entries store xs) k = Some doc) xs"
proof (induction store xs rule: write_entries.induct)
  case (1 store)
  then show ?case by simp
next
  case (2 store k doc rest)
  have k: "k \<notin> fst ` set rest" and d: "distinct (map fst rest)"
    using "2.prems" by auto
  have "map_of (write_entries (AList.update k doc store) rest) k = Some doc"
    using write_entries_other [OF k] by (simp add: update_conv')
  then show ?case using "2.IH" [OF d] by simp
qed

lemma write_entries_present:
  "list_all (\<lambda>(k, doc). map_of store k = Some doc) xs \<Longrightarrow> write_entries store xs = store"
  by (induction store xs rule: write_entries.induct) (auto simp: update_triv)

lemma write_entries_twice:
  "distinct (map fst xs) \<Longrightarrow> write_entries (write_entries store xs) xs = write_entries store xs"
  by (intro write_entries_present write_entries_written)

lemma add_document_chunks_unfold:
  "add_document_chunks sha256 self chunks d =
     (if \<not> distinct (map (chunk_key d) chunks)
      then Inl (DuplicateIDError ''Expected IDs to be unique'')
      else Inr (map (chunk_key d) chunks,
             self\<lparr>vector_store := write_entries (vector_store self)
               (zip (map (chunk_key d) chunks) (map (chunk_document d) chunks))\<rparr>))"
  by (cases chunks)
    (simp_all add: add_document_chunks_def add_documents_def store_add_documents_def)

lemma zip_keys_documents:
  "list_all (\<lambda>(k, doc). P k doc) (zip (map f cs) (map g cs)) = list_all (\<lambda>c. P (f c) (g c)) cs"
  by (induction cs) simp_all

text \<open>A batch that repeats a chunk index is refused, and nothing is written.\<close>

lemma add_document_chunks_duplicate:
  "chunk_index c = chunk_index c' \<Longrightarrow>
   add_document_chunks sha256 self (c # c' # rest) d =
     Inl (DuplicateIDError ''Expected IDs to be unique'')"
  by (simp add: add_document_chunks_unfold chunk_key_def)

text \<open>
  Claim C1, as amended. The identifier of a chunk is \<open>chunk_key\<close> of the document id
  and the chunk, and it is the same for two chunks with the same \<open>chunk_index\<close>: it is
  derived from the pair of document id and chunk index. When an upsert of a list of
  chunks succeeds, the identifiers returned are these keys, and the index holds under
  the key of every chunk the document made from that chunk. Upserting the same chunks
  of the same document a second time succeeds, returns the same identifiers and leaves
  the index exactly as it was, so with the same number of elements.
\<close>

theorem add_document_chunks_idempotent:
  assumes "add_document_chunks sha256 self chunks d = Inr (ids, self')"
  shows "ids = map (chunk_key d) chunks \<and>
    (\<forall>c c'. chunk_index c = chunk_index c' \<longrightarrow> chunk_key d c = chunk_key d c') \<and>
    list_all (\<lambda>c. map_of (vector_store self') (chunk_key d c) = Some (chunk_document d c))
      chunks \<and>
    (\<exists>self''. add_document_chunks sha256 self' chunks d = Inr (ids, self'') \<and>
       vector_store self'' = vector_store self' \<and>
       element_count self'' = element_count self')"
proof -
  let ?ks = "map (chunk_key d) chunks"
  let ?xs = "zip ?ks (map (chunk_document d) chunks)"
  have dist: "distinct ?ks"
    and ids: "ids = ?ks"
    and s': "self' = self\<lparr>vector_store := write_entries (vector_store self) ?xs\<rparr>"
    using assms by (auto simp: add_document_chunks_unfold split: if_splits)
  have dxs: "distinct (map fst ?xs)"
    using dist by simp
  have key: "\<forall>c c'. chunk_index c = chunk_index c' \<longrightarrow> chunk_key d c = chunk_key d c'"
    by (simp add: chunk_key_def)
  have written: "list_all
      (\<lambda>c. map_of (vector_store self') (chunk_key d c) = Some (chunk_document d c)) chunks"
    using write_entries_written [OF dxs, of "vector_store self"]
    by (simp add: s' zip_keys_documents)
  let ?s'' = "self'\<lparr>vector_store := write_entries (vector_store self') ?xs\<rparr>"
  have again: "add_document_chunks sha256 self' chunks d = Inr (ids, ?s'')"
    using dist by (simp add: add_document_chunks_unfold ids)
  have same: "vector_store ?s'' = vector_store self'"
    using write_entries_twice [OF dxs, of "vector_store self"] by (simp add: s')
  have n: "element_count ?s'' = element_count self'"
    using same by (simp add: element_count_def)
  show ?thesis using ids key written again same n by blast
qed

theorem add_document_chunks_idempotent_witness:
  "add_document_chunks (\<lambda>t. t) \<lparr>vector_store = []\<rparr>
     [\<lparr>chunk_id = 11, chunk_document_id = 3, chunk_index = 0, chunk_content = ''alpha'',
        content_hash = ''h-alpha'', page_number = None, section_title = None\<rparr>,
      \<lparr>chunk_id = 12, chunk_document_id = 3, chunk_index = 1, chunk_content = ''beta'',
        content_hash = ''h-beta'', page_number = Some 2, section_title = Some ''Intro''\<rparr>] 3 =
   Inr ([''doc_3_chunk_0'', ''doc_3_chunk_1''],
    \<lparr>vector_store =
       [(''doc_3_chunk_0'',
         \<lparr>page_content = ''alpha'',
          metadata = [(''document_id'', MInt 3), (''chunk_id'', MInt 11),
                      (''chunk_index'', MInt 0)]\<rparr>),
        (''doc_3_chunk_1'',
         \<lparr>page_content = ''beta'',
          metadata = [(''document_id'', MInt 3), (''chunk_id'', MInt 12),
                      (''chunk_index'', MInt 1), (''page_number'', MInt 2),
                      (''section_title'', MStr ''Intro'')]\<rparr>)]\<rparr>) \<and>
   (\<exists>self''. add_document_chunks (\<lambda>t. t)
       \<lparr>vector_store =
         [(''doc_3_chunk_0'',
           \<lparr>page_content = ''alpha'',
            metadata = [(''document_id'', MInt 3), (''chunk_id'', MInt 11),
                        (''chunk_index'', MInt 0)]\<rparr>),
          (''doc_3_chunk_1'',
           \<lparr>page_content = ''beta'',
            metadata = [(''document_id'', MInt 3), (''chunk_id'', MInt 12),
                        (''chunk_index'', MInt 1), (''page_number'', MInt 2),
                        (''section_title'', MStr ''Intro'')]\<rparr>)]\<rparr>
       [\<lparr>chunk_id = 11, chunk_document_id = 3, chunk_index = 0, chunk_content = ''alpha'',
          content_hash = ''h-alpha'', page_number = None, section_title = None\<rparr>,
        \<lparr>chunk_id = 12, chunk_document_id = 3, chunk_index = 1, chunk_content = ''beta'',
          content_hash = ''h-beta'', page_number = Some 2, section_title = Some ''Intro''\<rparr>] 3 =
       Inr ([''doc_3_chunk_0'', ''doc_3_chunk_1''], self'') \<and>
     element_count self'' = 2)"
proof -
  let ?chunks = "[\<lparr>chunk_id = 11, chunk_document_id = 3, chunk_index = 0, chunk_content = ''alpha'',
        content_hash = ''h-alpha'', page_number = None, section_title = None\<rparr>,
      \<lparr>chunk_id = 12, chunk_document_id = 3, chunk_index = 1, chunk_content = ''beta'',
        content_hash = ''h-beta'', page_number = Some 2, section_title = Some ''Intro''\<rparr>]"
  let ?s' = "\<lparr>vector_store =
       [(''doc_3_chunk_0'',
         \<lparr>page_content = ''alpha'',
          metadata = [(''document_id'', MInt 3), (''chunk_id'', MInt 11),
                      (''chunk_index'', MInt 0)]\<rparr>),
        (''doc_3_chunk_1'',
         \<lparr>page_content = ''beta'',
          metadata = [(''document_id'', MInt 3), (''chunk_id'', MInt 12),
                      (''chunk_index'', MInt 1), (''page_number'', MInt 2),
                      (''section_title'', MStr ''Intro'')]\<rparr>)]\<rparr>"
  have first: "add_document_chunks (\<lambda>t. t) \<lparr>vector_store = []\<rparr> ?chunks 3 =
      Inr ([''doc_3_chunk_0'', ''doc_3_chunk_1''], ?s')"
    by code_simp
  have n: "element_count ?s' = 2"
    by (simp add: element_count_def)
  from add_document_chunks_idempotent [OF first] n first
  show ?thesis by auto
qed

text \<open>
  Claim C1 as stated fails in its first half: the content hash takes no part in the
  identifier. Two chunks of document 3 at index 0 with different texts and different
  content hashes get the same identifier, and writing the second after the first
  replaces the entry: the index holds one element, with the second text.
\<close>

theorem add_document_chunks_counterexample:
  "content_hash
      \<lparr>chunk_id = 11, chunk_document_id = 3, chunk_index = 0, chunk_content = ''alpha'',
        content_hash = ''h-alpha'', page_number = None, section_title = None\<rparr> \<noteq>
   content_hash
      \<lparr>chunk_id = 11, chunk_document_id = 3, chunk_index = 0, chunk_content = ''gamma'',
        content_hash = ''h-gamma'', page_number = None, section_title = None\<rparr> \<and>
   chunk_key 3
      \<lparr>chunk_id = 11, chunk_document_id = 3, chunk_index = 0, chunk_content = ''alpha'',
        content_hash = ''h-alpha'', page_number = None, section_title = None\<rparr> =
   chunk_key 3
      \<lparr>chunk_id = 11, chunk_document_id = 3, chunk_index = 0, chunk_content = ''gamma'',
        content_hash = ''h-gamma'', page_number = None, section_title = None\<rparr> \<and>
   (case add_document_chunks (\<lambda>t. t) \<lparr>vector_store = []\<rparr>
          [\<lparr>chunk_id = 11, chunk_document_id = 3, chunk_index = 0, chunk_content = ''alpha'',
            content_hash = ''h-alpha'', page_number = None, section_title = None\<rparr>] 3 of
      Inl e \<Rightarrow> None
    | Inr (ids1, s1) \<Rightarrow>
        (case add_document_chunks (\<lambda>t. t) s1
               [\<lparr>chunk_id = 11, chunk_document_id = 3, chunk_index = 0,
                 chunk_content = ''gamma'', content_hash = ''h-gamma'',
                 page_number = None, section_title = None\<rparr>] 3 of
           Inl e \<Rightarrow> None
         | Inr (ids2, s2) \<Rightarrow>
             Some (map (\<lambda>(k, doc). (k, page_content doc)) (vector_store s2)))) =
   Some [(''doc_3_chunk_0'', ''gamma'')]"
  by code_simp

section \<open>Properties of the connection registry\<close>

subsection \<open>The predicates, read over the maps that the lists denote\<close>

lemma find_user_Some:
  "find_user uc c = Some u \<Longrightarrow> \<exists>s. (u, s) \<in> set uc \<and> c |\<in>| s"
  by (induction uc c rule: find_user.induct) (auto split: if_splits)

lemma find_user_None:
  "find_user uc c = None \<Longrightarrow> (u, s) \<in> set uc \<Longrightarrow> c |\<notin>| s"
  by (induction uc c rule: find_user.induct) (auto split: if_splits)

lemma disjoint_sets_owner:
  "disjoint_sets uc \<Longrightarrow> distinct (map fst uc) \<Longrightarrow>
   (u, s) \<in> set uc \<Longrightarrow> (u', s') \<in> set uc \<Longrightarrow> c |\<in>| s \<Longrightarrow> c |\<in>| s' \<Longrightarrow> u = u'"
proof (induction uc)
  case Nil
  then show ?case by simp
next
  case (Cons p uc)
  obtain u0 s0 where p: "p = (u0, s0)" by (cases p)
  have rest: "\<And>v t. (v, t) \<in> set uc \<Longrightarrow> c |\<in>| s0 \<Longrightarrow> c |\<in>| t \<Longrightarrow> False"
  proof -
    fix v t assume h: "(v, t) \<in> set uc" "c |\<in>| s0" "c |\<in>| t"
    from Cons.prems(1) h(1) have "s0 |\<inter>| t = {||}"
      by (auto simp: p list_all_iff)
    with h show False by blast
  qed
  from Cons.prems consider
      "(u, s) = p" "(u', s') = p"
    | "(u, s) = p" "(u', s') \<in> set uc"
    | "(u, s) \<in> set uc" "(u', s') = p"
    | "(u, s) \<in> set uc" "(u', s') \<in> set uc"
    by auto
  then show ?case
  proof cases
    case 1 then show ?thesis by auto
  next
    case 2 with rest [of u' s'] Cons.prems p show ?thesis by auto
  next
    case 3 with rest [of u s] Cons.prems p show ?thesis by auto
  next
    case 4 with Cons.IH Cons.prems p show ?thesis by auto
  qed
qed

lemma disjoint_sets_intro:
  "(\<And>u s u' s' c. (u, s) \<in> set uc \<Longrightarrow> (u', s') \<in> set uc \<Longrightarrow> c |\<in>| s \<Longrightarrow> c |\<in>| s' \<Longrightarrow> u = u')
   \<Longrightarrow> distinct (map fst uc) \<Longrightarrow> disjoint_sets uc"
proof (induction uc)
  case Nil
  then show ?case by simp
next
  case (Cons p uc)
  obtain u0 s0 where p: "p = (u0, s0)" by (cases p)
  have d: "distinct (map fst uc)" and nin: "u0 \<notin> fst ` set uc"
    using Cons.prems(2) p by auto
  have tl: "disjoint_sets uc"
  proof (rule Cons.IH [OF _ d])
    fix u s u' s' c
    assume "(u, s) \<in> set uc" "(u', s') \<in> set uc" "c |\<in>| s" "c |\<in>| s'"
    then show "u = u'"
      using Cons.prems(1) [of u s u' s' c] by auto
  qed
  have hd: "list_all (\<lambda>(uid', conn_ids'). s0 |\<inter>| conn_ids' = {||}) uc"
    unfolding list_all_iff
  proof
    fix x assume x: "x \<in> set uc"
    obtain v t where xv: "x = (v, t)" by (cases x)
    have "v \<noteq> u0" using x xv nin by force
    have "\<And>c. c |\<in>| s0 \<Longrightarrow> c |\<in>| t \<Longrightarrow> False"
    proof -
      fix c assume "c |\<in>| s0" "c |\<in>| t"
      then have "u0 = v"
        using Cons.prems(1) [of u0 s0 v t c] x xv p by auto
      with \<open>v \<noteq> u0\<close> show False by simp
    qed
    then have "s0 |\<inter>| t = {||}" by blast
    then show "case x of (uid', conn_ids') \<Rightarrow> s0 |\<inter>| conn_ids' = {||}"
      by (simp add: xv)
  qed
  show ?case using hd tl by (simp add: p)
qed

text \<open>The semantic reading of the three predicates, over the maps the lists denote.\<close>

lemma well_formed_iff:
  "well_formed r \<longleftrightarrow>
     distinct (map fst (user_connections r)) \<and>
     (\<forall>u s u' s' c. map_of (user_connections r) u = Some s \<longrightarrow>
        map_of (user_connections r) u' = Some s' \<longrightarrow> c |\<in>| s \<longrightarrow> c |\<in>| s' \<longrightarrow> u = u')"
proof (cases "distinct (map fst (user_connections r))")
  case True
  then have mem: "\<And>u s. (u, s) \<in> set (user_connections r) \<longleftrightarrow>
      map_of (user_connections r) u = Some s"
    by auto
  show ?thesis
  proof
    assume "well_formed r"
    then show "distinct (map fst (user_connections r)) \<and>
     (\<forall>u s u' s' c. map_of (user_connections r) u = Some s \<longrightarrow>
        map_of (user_connections r) u' = Some s' \<longrightarrow> c |\<in>| s \<longrightarrow> c |\<in>| s' \<longrightarrow> u = u')"
      using disjoint_sets_owner [of "user_connections r"] mem
      unfolding well_formed_def by blast
  next
    assume a: "distinct (map fst (user_connections r)) \<and>
     (\<forall>u s u' s' c. map_of (user_connections r) u = Some s \<longrightarrow>
        map_of (user_connections r) u' = Some s' \<longrightarrow> c |\<in>| s \<longrightarrow> c |\<in>| s' \<longrightarrow> u = u')"
    have "disjoint_sets (user_connections r)"
      by (rule disjoint_sets_intro) (use a mem in blast)+
    then show "well_formed r"
      using True by (simp add: well_formed_def)
  qed
next
  case False
  then show ?thesis by (simp add: well_formed_def)
qed

lemma consistent_iff:
  "distinct (map fst (user_connections r)) \<Longrightarrow>
   consistent r \<longleftrightarrow>
     (\<forall>u s. map_of (user_connections r) u = Some s \<longrightarrow>
        s \<noteq> {||} \<and> (\<forall>c. c |\<in>| s \<longrightarrow> map_of (active_connections r) c \<noteq> None))"
  unfolding consistent_def list_all_iff by fastforce

lemma in_use_iff:
  "distinct (map fst (user_connections r)) \<Longrightarrow>
   in_use r c \<longleftrightarrow>
     (map_of (active_connections r) c \<noteq> None \<or>
      (\<exists>u s. map_of (user_connections r) u = Some s \<and> c |\<in>| s))"
  unfolding in_use_def list_ex_iff by auto

lemma find_user_Some_map:
  "distinct (map fst uc) \<Longrightarrow> find_user uc c = Some u \<Longrightarrow>
   \<exists>s. map_of uc u = Some s \<and> c |\<in>| s"
  using find_user_Some [of uc c u] by auto

lemma find_user_None_map:
  "find_user uc c = None \<Longrightarrow> map_of uc u = Some s \<Longrightarrow> c |\<notin>| s"
  using find_user_None [of uc c u s] by (auto dest: map_of_SomeD)

subsection \<open>What \<open>disconnect\<close> does to the two maps\<close>

lemma disconnect_Inr: "\<exists>r'. disconnect r c ua cr = Inr r'"
  by (simp add: disconnect_def Let_def)

lemma disconnect_active:
  "disconnect r c ua cr = Inr r' \<Longrightarrow>
   map_of (active_connections r') = (map_of (active_connections r))(c := None)"
  by (auto simp: disconnect_def Let_def delete_conv' split: option.splits)

lemma disconnect_users:
  "disconnect r c ua cr = Inr r' \<Longrightarrow>
   user_connections r' =
     (case (case ua of None \<Rightarrow> find_user (user_connections r) c | Some u \<Rightarrow> Some u) of
        None \<Rightarrow> user_connections r
      | Some u \<Rightarrow>
          (case map_of (user_connections r) u of
             None \<Rightarrow> user_connections r
           | Some s \<Rightarrow>
               if s |-| {|c|} = {||} then AList.delete u (user_connections r)
               else AList.update u (s |-| {|c|}) (user_connections r)))"
  by (auto simp: disconnect_def Let_def split: option.splits)

text \<open>The owner that \<open>disconnect\<close> works with, in a well-formed registry.\<close>

lemma resolved_owner:
  assumes wf: "well_formed r"
    and u: "map_of (user_connections r) u = Some s" "c |\<in>| s"
    and ua: "ua = None \<or> ua = Some u"
  shows "(case ua of None \<Rightarrow> find_user (user_connections r) c | Some u \<Rightarrow> Some u) = Some u"
proof (cases ua)
  case None
  have d: "distinct (map fst (user_connections r))"
    using wf by (simp add: well_formed_iff)
  show ?thesis
  proof (cases "find_user (user_connections r) c")
    case None
    then show ?thesis using find_user_None_map [OF None u(1)] u(2) by simp
  next
    case (Some u')
    then obtain s' where "map_of (user_connections r) u' = Some s'" "c |\<in>| s'"
      using find_user_Some_map [OF d Some] by blast
    then have "u' = u"
      using wf u unfolding well_formed_iff by blast
    then show ?thesis using Some \<open>ua = None\<close> by simp
  qed
next
  case (Some a)
  then show ?thesis using ua by simp
qed

lemma disconnect_owned_users:
  assumes wf: "well_formed r"
    and u: "map_of (user_connections r) u = Some s" "c |\<in>| s"
    and ua: "ua = None \<or> ua = Some u"
    and d: "disconnect r c ua cr = Inr r'"
  shows "user_connections r' =
     (if s |-| {|c|} = {||} then AList.delete u (user_connections r)
      else AList.update u (s |-| {|c|}) (user_connections r))"
  using disconnect_users [OF d] resolved_owner [OF wf u ua] u(1) by simp

lemma disconnect_owned_map:
  assumes wf: "well_formed r"
    and u: "map_of (user_connections r) u = Some s" "c |\<in>| s"
    and ua: "ua = None \<or> ua = Some u"
    and d: "disconnect r c ua cr = Inr r'"
  shows "map_of (user_connections r') =
     (map_of (user_connections r))(u := if s |-| {|c|} = {||} then None else Some (s |-| {|c|}))"
    and "distinct (map fst (user_connections r'))"
  using disconnect_owned_users [OF wf u ua d] wf
  by (auto simp: delete_conv' update_conv' well_formed_iff distinct_delete distinct_update)

lemma disconnect_owned_not_in_use:
  assumes wf: "well_formed r"
    and u: "map_of (user_connections r) u = Some s" "c |\<in>| s"
    and ua: "ua = None \<or> ua = Some u"
    and d: "disconnect r c ua cr = Inr r'"
  shows "\<not> in_use r' c"
proof -
  note m = disconnect_owned_map [OF wf u ua d]
  have other: "\<And>v t. v \<noteq> u \<Longrightarrow> map_of (user_connections r) v = Some t \<Longrightarrow> c |\<notin>| t"
    using wf u unfolding well_formed_iff by blast
  have "\<And>v t. map_of (user_connections r') v = Some t \<Longrightarrow> c |\<notin>| t"
    using other by (auto simp: m(1) split: if_splits)
  then show ?thesis
    using disconnect_active [OF d] by (auto simp: in_use_iff [OF m(2)])
qed

lemma fcard_remove_member: "c |\<in>| s \<Longrightarrow> fcard s = fcard (s |-| {|c|}) + 1"
  by (metis Suc_eq_plus1 fcard_Suc_fminus1)


subsection \<open>The invariant is kept by every operation\<close>

lemma connect_inv:
  assumes wf: "well_formed r" and co: "consistent r" and fresh: "\<not> in_use r c"
    and c: "connect r ws u c a = Inr (c', r')"
  shows "well_formed r' \<and> consistent r'"
proof -
  let ?uc = "user_connections r"
  let ?old = "case map_of ?uc u of None \<Rightarrow> {||} | Some s \<Rightarrow> s"
  have d: "distinct (map fst ?uc)"
    using wf by (simp add: well_formed_iff)
  have a': "map_of (active_connections r') = (map_of (active_connections r))(c \<mapsto> ws)"
    using c by (auto simp: connect_def Let_def update_conv' split: option.splits)
  have u': "map_of (user_connections r') = (map_of ?uc)(u \<mapsto> finsert c ?old)"
    using c
    by (auto simp: connect_def Let_def update_conv' map_of_map_entry split: option.splits)
  have d': "distinct (map fst (user_connections r'))"
    using c d
    by (auto simp: connect_def Let_def distinct_update distinct_map_entry split: option.splits)
  have nowhere: "\<And>v t. map_of ?uc v = Some t \<Longrightarrow> c |\<notin>| t"
    using fresh by (auto simp: in_use_iff [OF d])
  have own: "\<And>v t v' t' x. map_of ?uc v = Some t \<Longrightarrow> map_of ?uc v' = Some t' \<Longrightarrow>
      x |\<in>| t \<Longrightarrow> x |\<in>| t' \<Longrightarrow> v = v'"
    using wf unfolding well_formed_iff by blast
  have cons: "\<And>v t. map_of ?uc v = Some t \<Longrightarrow>
      t \<noteq> {||} \<and> (\<forall>x. x |\<in>| t \<longrightarrow> map_of (active_connections r) x \<noteq> None)"
    using co by (simp add: consistent_iff [OF d])
  have old_mem: "\<And>x. x |\<in>| ?old \<Longrightarrow> map_of ?uc u = Some ?old"
    by (auto split: option.splits)
  have "well_formed r'"
    unfolding well_formed_iff
  proof (intro conjI allI impI)
    show "distinct (map fst (user_connections r'))" by (rule d')
  next
    fix v t v' t' x
    assume h: "map_of (user_connections r') v = Some t"
      "map_of (user_connections r') v' = Some t'" "x |\<in>| t" "x |\<in>| t'"
    show "v = v'"
    proof (rule ccontr)
      assume ne: "v \<noteq> v'"
      show False
      proof (cases "v = u")
        case True
        then have t: "t = finsert c ?old" and t': "map_of ?uc v' = Some t'"
          using h ne by (auto simp: u')
        from h(3) t have "x = c \<or> x |\<in>| ?old" by auto
        then show False
        proof
          assume "x = c" then show False using nowhere [OF t'] h(4) by simp
        next
          assume "x |\<in>| ?old"
          then show False using own [OF old_mem t' _ h(4)] ne True by auto
        qed
      next
        case False
        then have t: "map_of ?uc v = Some t" using h by (auto simp: u')
        show False
        proof (cases "v' = u")
          case True
          then have t': "t' = finsert c ?old" using h by (auto simp: u')
          from h(4) t' have "x = c \<or> x |\<in>| ?old" by auto
          then show False
          proof
            assume "x = c" then show False using nowhere [OF t] h(3) by simp
          next
            assume "x |\<in>| ?old"
            then show False using own [OF t old_mem h(3)] False True by auto
          qed
        next
          case False
          then have "map_of ?uc v' = Some t'" using h by (auto simp: u')
          then show False using own [OF t _ h(3) h(4)] ne by auto
        qed
      qed
    qed
  qed
  moreover have "consistent r'"
    unfolding consistent_iff [OF d']
  proof (intro allI impI)
    fix v t assume h: "map_of (user_connections r') v = Some t"
    show "t \<noteq> {||} \<and> (\<forall>x. x |\<in>| t \<longrightarrow> map_of (active_connections r') x \<noteq> None)"
    proof (cases "v = u")
      case True
      then have t: "t = finsert c ?old" using h by (simp add: u')
      have "\<And>x. x |\<in>| ?old \<Longrightarrow> map_of (active_connections r) x \<noteq> None"
        using cons old_mem by blast
      then show ?thesis using t by (auto simp: a')
    next
      case False
      then have "map_of ?uc v = Some t" using h by (simp add: u')
      then show ?thesis using cons by (auto simp: a')
    qed
  qed
  ultimately show ?thesis ..
qed

lemma disconnect_inv:
  assumes wf: "well_formed r" and co: "consistent r"
    and ok: "case ua of None \<Rightarrow> True
             | Some u \<Rightarrow> (case find_user (user_connections r) c of None \<Rightarrow> True | Some u' \<Rightarrow> u' = u)"
    and dc: "disconnect r c ua cr = Inr r'"
  shows "well_formed r' \<and> consistent r'"
proof -
  let ?uc = "user_connections r"
  have d: "distinct (map fst ?uc)"
    using wf by (simp add: well_formed_iff)
  have own: "\<And>v t v' t' x. map_of ?uc v = Some t \<Longrightarrow> map_of ?uc v' = Some t' \<Longrightarrow>
      x |\<in>| t \<Longrightarrow> x |\<in>| t' \<Longrightarrow> v = v'"
    using wf unfolding well_formed_iff by blast
  have cons: "\<And>v t. map_of ?uc v = Some t \<Longrightarrow>
      t \<noteq> {||} \<and> (\<forall>x. x |\<in>| t \<longrightarrow> map_of (active_connections r) x \<noteq> None)"
    using co by (simp add: consistent_iff [OF d])
  have a': "map_of (active_connections r') = (map_of (active_connections r))(c := None)"
    by (rule disconnect_active [OF dc])
  have shape: "distinct (map fst (user_connections r')) \<and>
      (\<forall>v t. map_of (user_connections r') v = Some t \<longrightarrow>
         t \<noteq> {||} \<and> c |\<notin>| t \<and> (\<exists>t0. map_of ?uc v = Some t0 \<and> t |\<subseteq>| t0))"
  proof (cases "find_user ?uc c")
    case None
    then have free: "\<And>v t. map_of ?uc v = Some t \<Longrightarrow> c |\<notin>| t"
      using find_user_None_map by blast
    have same: "map_of (user_connections r') = map_of ?uc"
      and d': "distinct (map fst (user_connections r'))"
      using disconnect_users [OF dc] None free cons d
      by (auto simp: update_conv' delete_conv' distinct_update fun_eq_iff
          split: option.splits if_splits)
    show ?thesis using same d' free cons by auto
  next
    case (Some u)
    then obtain s where u: "map_of ?uc u = Some s" "c |\<in>| s"
      using find_user_Some_map [OF d] by blast
    have ua: "ua = None \<or> ua = Some u"
      using ok Some by (cases ua) auto
    note mp = disconnect_owned_map [OF wf u ua dc]
    have other: "\<And>v t. v \<noteq> u \<Longrightarrow> map_of ?uc v = Some t \<Longrightarrow> c |\<notin>| t"
      using own u by blast
    show ?thesis
      using mp(2) other u cons by (auto simp: mp(1) split: if_splits)
  qed
  have "well_formed r'"
    unfolding well_formed_iff
  proof (intro conjI allI impI)
    show "distinct (map fst (user_connections r'))" using shape by simp
  next
    fix v t v' t' x
    assume h: "map_of (user_connections r') v = Some t"
      "map_of (user_connections r') v' = Some t'" "x |\<in>| t" "x |\<in>| t'"
    obtain t0 where t0: "map_of ?uc v = Some t0" "t |\<subseteq>| t0" using shape h(1) by blast
    obtain t0' where t0': "map_of ?uc v' = Some t0'" "t' |\<subseteq>| t0'" using shape h(2) by blast
    show "v = v'"
      using own [OF t0(1) t0'(1), of x] t0(2) t0'(2) h(3,4) by blast
  qed
  moreover have "consistent r'"
    unfolding consistent_iff [OF conjunct1 [OF shape]]
  proof (intro allI impI conjI)
    fix v t assume h: "map_of (user_connections r') v = Some t"
    then show "t \<noteq> {||}" using shape by blast
    fix x assume x: "x |\<in>| t"
    obtain t0 where t0: "map_of ?uc v = Some t0" "t |\<subseteq>| t0" using shape h by blast
    have "x \<noteq> c" using shape h x by blast
    moreover have "map_of (active_connections r) x \<noteq> None"
      using cons [OF t0(1)] t0(2) x by blast
    ultimately show "map_of (active_connections r') x \<noteq> None"
      by (simp add: a')
  qed
  ultimately show ?thesis ..
qed

lemma send_message_cases:
  "send_message r m c sr cr =
     (if map_of (active_connections r) c = None then Inr (False, r)
      else if sr = None then Inr (True, r)
      else (case disconnect r c None cr of Inl e \<Rightarrow> Inl e | Inr r' \<Rightarrow> Inr (False, r')))"
  by (simp add: send_message_def split: option.splits exn.splits)

lemma send_message_inv:
  assumes wf: "well_formed r" and co: "consistent r"
    and s: "send_message r m c sr cr = Inr (ok, r')"
  shows "well_formed r' \<and> consistent r'"
proof (cases "map_of (active_connections r) c = None \<or> sr = None")
  case True
  then have "r' = r" using s by (auto simp: send_message_cases split: if_splits)
  then show ?thesis using wf co by simp
next
  case False
  then have "disconnect r c None cr = Inr r'"
    using s by (auto simp: send_message_cases split: sum.splits)
  then show ?thesis using disconnect_inv [OF wf co, where ua = None and c = c and cr = cr and r' = r'] by simp
qed

lemma send_each_inv:
  "well_formed r \<Longrightarrow> consistent r \<Longrightarrow> send_each r m cs sr cr n = Inr (k, r') \<Longrightarrow>
   well_formed r' \<and> consistent r'"
proof (induction cs arbitrary: r n)
  case Nil
  then show ?case by simp
next
  case (Cons c cs)
  from Cons.prems(3) obtain ok r1 where
    s: "send_message r m c (sr c) (cr c) = Inr (ok, r1)"
    and rest: "send_each r1 m cs sr cr (if ok then n + 1 else n) = Inr (k, r')"
    by (auto split: sum.splits)
  have "well_formed r1 \<and> consistent r1"
    by (rule send_message_inv [OF Cons.prems(1,2) s])
  then show ?case using Cons.IH rest by blast
qed

lemma apply_op_inv:
  assumes wf: "well_formed r" and co: "consistent r" and ok: "op_ok r x"
  shows "well_formed (apply_op r x) \<and> consistent (apply_op r x)"
proof (cases x)
  case (Connect ws u c a)
  then show ?thesis
    using connect_inv [OF wf co, of c ws u a] ok wf co
    by (auto split: sum.splits)
next
  case (Disconnect c ua cl)
  have "case ua of None \<Rightarrow> True
             | Some u \<Rightarrow> (case find_user (user_connections r) c of None \<Rightarrow> True | Some u' \<Rightarrow> u' = u)"
    using ok Disconnect by (cases ua) auto
  then show ?thesis
    using disconnect_inv [OF wf co, where ua = ua and c = c and cr = cl] wf co Disconnect
    by (auto split: sum.splits)
next
  case (Send m c s cl)
  then show ?thesis
    using send_message_inv [OF wf co, of m c s cl] wf co
    by (auto split: sum.splits)
next
  case (Broadcast m u s cl)
  then show ?thesis
    using send_each_inv [OF wf co, of m _ s cl 0] wf co
    by (auto simp: broadcast_to_user_def split: sum.splits option.splits)
qed

lemma run_ops_inv:
  "well_formed r \<Longrightarrow> consistent r \<Longrightarrow> ops_ok r ops \<Longrightarrow>
   well_formed (run_ops r ops) \<and> consistent (run_ops r ops)"
proof (induction ops arbitrary: r)
  case Nil
  then show ?case by simp
next
  case (Cons x xs)
  then show ?case using apply_op_inv [of r x] by simp
qed


subsection \<open>Well-formedness holds in every registry that can be reached\<close>

text \<open>
  Starting from the empty registry, every sequence of operations whose new identifiers
  are not in use leads to a well-formed registry, whatever the arguments of
  \<open>disconnect\<close> and the outcomes of the transport calls are.
\<close>

lemma connect_well_formed:
  assumes wf: "well_formed r" and fresh: "\<not> in_use r c"
    and c: "connect r ws u c a = Inr (c', r')"
  shows "well_formed r'"
proof -
  let ?uc = "user_connections r"
  let ?old = "case map_of ?uc u of None \<Rightarrow> {||} | Some s \<Rightarrow> s"
  have d: "distinct (map fst ?uc)"
    using wf by (simp add: well_formed_iff)
  have u': "map_of (user_connections r') = (map_of ?uc)(u \<mapsto> finsert c ?old)"
    using c
    by (auto simp: connect_def Let_def update_conv' map_of_map_entry split: option.splits)
  have d': "distinct (map fst (user_connections r'))"
    using c d
    by (auto simp: connect_def Let_def distinct_update distinct_map_entry split: option.splits)
  have nowhere: "\<And>v t. map_of ?uc v = Some t \<Longrightarrow> c |\<notin>| t"
    using fresh by (auto simp: in_use_iff [OF d])
  have own: "\<And>v t v' t' x. map_of ?uc v = Some t \<Longrightarrow> map_of ?uc v' = Some t' \<Longrightarrow>
      x |\<in>| t \<Longrightarrow> x |\<in>| t' \<Longrightarrow> v = v'"
    using wf unfolding well_formed_iff by blast
  have old_mem: "\<And>x. x |\<in>| ?old \<Longrightarrow> map_of ?uc u = Some ?old"
    by (auto split: option.splits)
  have pre: "\<And>v t x. map_of (user_connections r') v = Some t \<Longrightarrow> x |\<in>| t \<Longrightarrow>
      (x = c \<and> v = u) \<or> (\<exists>t0. map_of ?uc v = Some t0 \<and> x |\<in>| t0)"
  proof -
    fix v t x assume h: "map_of (user_connections r') v = Some t" "x |\<in>| t"
    show "(x = c \<and> v = u) \<or> (\<exists>t0. map_of ?uc v = Some t0 \<and> x |\<in>| t0)"
    proof (cases "v = u")
      case True
      then have "t = finsert c ?old" using h(1) by (simp add: u')
      then have "x = c \<or> x |\<in>| ?old" using h(2) by auto
      then show ?thesis using True old_mem by blast
    next
      case False
      then show ?thesis using h by (auto simp: u')
    qed
  qed
  show ?thesis
    unfolding well_formed_iff
  proof (intro conjI allI impI)
    show "distinct (map fst (user_connections r'))" by (rule d')
  next
    fix v t v' t' x
    assume h: "map_of (user_connections r') v = Some t"
      "map_of (user_connections r') v' = Some t'" "x |\<in>| t" "x |\<in>| t'"
    from pre [OF h(1) h(3)] pre [OF h(2) h(4)] show "v = v'"
      using nowhere own by blast
  qed
qed

lemma disconnect_shrinks:
  assumes d: "distinct (map fst (user_connections r))"
    and dc: "disconnect r c ua cr = Inr r'"
  shows "distinct (map fst (user_connections r')) \<and>
      (\<forall>v t. map_of (user_connections r') v = Some t \<longrightarrow>
         (\<exists>t0. map_of (user_connections r) v = Some t0 \<and> t |\<subseteq>| t0))"
proof -
  let ?uc = "user_connections r"
  from disconnect_users [OF dc] consider
      (same) "user_connections r' = ?uc"
    | (del) u where "user_connections r' = AList.delete u ?uc"
    | (upd) u s where "map_of ?uc u = Some s"
        "user_connections r' = AList.update u (s |-| {|c|}) ?uc"
    by (auto split: option.splits if_splits)
  then show ?thesis
  proof cases
    case same
    then show ?thesis using d by auto
  next
    case (del u)
    have "map_of (user_connections r') = (map_of ?uc)(u := None)"
      by (simp add: del delete_conv')
    moreover have "distinct (map fst (user_connections r'))"
      by (simp add: del distinct_delete d)
    ultimately show ?thesis by (auto split: if_splits)
  next
    case (upd u s)
    have "map_of (user_connections r') = (map_of ?uc)(u \<mapsto> s |-| {|c|})"
      by (simp add: upd(2) update_conv')
    moreover have "distinct (map fst (user_connections r'))"
      by (simp add: upd(2) distinct_update d)
    ultimately show ?thesis using upd(1) by (auto split: if_splits)
  qed
qed

lemma disconnect_well_formed:
  assumes wf: "well_formed r" and dc: "disconnect r c ua cr = Inr r'"
  shows "well_formed r'"
proof -
  have d: "distinct (map fst (user_connections r))"
    using wf by (simp add: well_formed_iff)
  note sh = disconnect_shrinks [OF d dc]
  have own: "\<And>v t v' t' x. map_of (user_connections r) v = Some t \<Longrightarrow>
      map_of (user_connections r) v' = Some t' \<Longrightarrow> x |\<in>| t \<Longrightarrow> x |\<in>| t' \<Longrightarrow> v = v'"
    using wf unfolding well_formed_iff by blast
  show ?thesis
    unfolding well_formed_iff
  proof (intro conjI allI impI)
    show "distinct (map fst (user_connections r'))" using sh by simp
  next
    fix v t v' t' x
    assume h: "map_of (user_connections r') v = Some t"
      "map_of (user_connections r') v' = Some t'" "x |\<in>| t" "x |\<in>| t'"
    obtain t0 where t0: "map_of (user_connections r) v = Some t0" "t |\<subseteq>| t0"
      using sh h(1) by blast
    obtain t0' where t0': "map_of (user_connections r) v' = Some t0'" "t' |\<subseteq>| t0'"
      using sh h(2) by blast
    show "v = v'"
      using own [OF t0(1) t0'(1), of x] t0(2) t0'(2) h(3,4) by blast
  qed
qed

lemma send_message_well_formed:
  assumes wf: "well_formed r" and s: "send_message r m c sr cr = Inr (ok, r')"
  shows "well_formed r'"
proof (cases "map_of (active_connections r) c = None \<or> sr = None")
  case True
  then have "r' = r" using s by (auto simp: send_message_cases split: if_splits)
  then show ?thesis using wf by simp
next
  case False
  then have "disconnect r c None cr = Inr r'"
    using s by (auto simp: send_message_cases split: sum.splits)
  then show ?thesis using disconnect_well_formed [OF wf] by simp
qed

lemma send_each_well_formed:
  "well_formed r \<Longrightarrow> send_each r m cs sr cr n = Inr (k, r') \<Longrightarrow> well_formed r'"
proof (induction cs arbitrary: r n)
  case Nil
  then show ?case by simp
next
  case (Cons c cs)
  from Cons.prems(2) obtain ok r1 where
    s: "send_message r m c (sr c) (cr c) = Inr (ok, r1)"
    and rest: "send_each r1 m cs sr cr (if ok then n + 1 else n) = Inr (k, r')"
    by (auto split: sum.splits)
  have "well_formed r1"
    by (rule send_message_well_formed [OF Cons.prems(1) s])
  then show ?case using Cons.IH rest by blast
qed

lemma apply_op_well_formed:
  assumes wf: "well_formed r" and ok: "op_fresh r x"
  shows "well_formed (apply_op r x)"
proof (cases x)
  case (Connect ws u c a)
  then show ?thesis
    using connect_well_formed [OF wf, of c ws u a] ok wf
    by (auto split: sum.splits)
next
  case (Disconnect c ua cl)
  then show ?thesis
    using disconnect_well_formed [OF wf, of c ua cl] wf
    by (auto split: sum.splits)
next
  case (Send m c s cl)
  then show ?thesis
    using send_message_well_formed [OF wf, of m c s cl] wf
    by (auto split: sum.splits)
next
  case (Broadcast m u s cl)
  then show ?thesis
    using send_each_well_formed [OF wf, of m _ s cl 0] wf
    by (auto simp: broadcast_to_user_def split: sum.splits option.splits)
qed

lemma run_ops_well_formed:
  "well_formed r \<Longrightarrow> ops_fresh r ops \<Longrightarrow> well_formed (run_ops r ops)"
proof (induction ops arbitrary: r)
  case Nil
  then show ?case by simp
next
  case (Cons x xs)
  then show ?case using apply_op_well_formed [of r x] by simp
qed

lemma reachable_well_formed:
  "ops_fresh manager ops \<Longrightarrow> well_formed (run_ops manager ops)"
  using run_ops_well_formed [of manager ops]
  by (simp add: manager_def well_formed_def)

subsection \<open>The claims about the registry\<close>

text \<open>
  Claim C6. \<open>send_message\<close> never raises, whatever the transport does. It returns
  \<open>True\<close> exactly when the connection is known and the write succeeds, and leaves the
  registry as it was when the connection is unknown or the write succeeds. When the
  write fails, the result is \<open>False\<close> and the registry is the one that
  \<open>disconnect\<close> (called without a user) yields: the connection is no key of
  \<open>active_connections\<close> any more and, in a well-formed registry, no member of any
  user's connection set.
\<close>

theorem send_message_never_raises:
  "\<exists>ok r'. send_message r m c sr cr = Inr (ok, r') \<and>
     (ok \<longleftrightarrow> map_of (active_connections r) c \<noteq> None \<and> sr = None) \<and>
     (map_of (active_connections r) c = None \<or> sr = None \<longrightarrow> r' = r) \<and>
     (map_of (active_connections r) c \<noteq> None \<and> sr \<noteq> None \<longrightarrow>
        disconnect r c None cr = Inr r' \<and>
        map_of (active_connections r') c = None \<and>
        (well_formed r \<longrightarrow> \<not> in_use r' c))"
proof (cases "map_of (active_connections r) c = None \<or> sr = None")
  case True
  then show ?thesis by (auto simp: send_message_cases)
next
  case False
  obtain r' where d: "disconnect r c None cr = Inr r'"
    using disconnect_Inr by blast
  have s: "send_message r m c sr cr = Inr (False, r')"
    using False d by (auto simp: send_message_cases)
  have a: "map_of (active_connections r') c = None"
    using disconnect_active [OF d] by simp
  have "\<not> in_use r' c" if wf: "well_formed r"
  proof (cases "find_user (user_connections r) c")
    case None
    have dd: "distinct (map fst (user_connections r))"
      using wf by (simp add: well_formed_iff)
    have "user_connections r' = user_connections r"
      using disconnect_users [OF d] None by simp
    then show ?thesis
      using a find_user_None_map [OF None] dd by (auto simp: in_use_iff)
  next
    case (Some u)
    have dd: "distinct (map fst (user_connections r))"
      using wf by (simp add: well_formed_iff)
    obtain s where u: "map_of (user_connections r) u = Some s" "c |\<in>| s"
      using find_user_Some_map [OF dd Some] by blast
    show ?thesis
      by (rule disconnect_owned_not_in_use [OF wf u _ d]) simp
  qed
  then have "send_message r m c sr cr = Inr (False, r') \<and>
     (False \<longleftrightarrow> map_of (active_connections r) c \<noteq> None \<and> sr = None) \<and>
     (map_of (active_connections r) c = None \<or> sr = None \<longrightarrow> r' = r) \<and>
     (map_of (active_connections r) c \<noteq> None \<and> sr \<noteq> None \<longrightarrow>
        disconnect r c None cr = Inr r' \<and>
        map_of (active_connections r') c = None \<and>
        (well_formed r \<longrightarrow> \<not> in_use r' c))"
    using s a d False by auto
  then show ?thesis by blast
qed

theorem send_message_never_raises_witness:
  "send_message
     \<lparr>active_connections = [(''c1'', 7), (''c2'', 8), (''c3'', 9)],
      user_connections = [(1, {|''c1'', ''c2''|}), (2, {|''c3''|})]\<rparr>
     ''payload'' ''c1'' (Some WebSocketDisconnect) (Some (OtherException ''close failed'')) =
   Inr (False,
     \<lparr>active_connections = [(''c2'', 8), (''c3'', 9)],
      user_connections = [(1, {|''c2''|}), (2, {|''c3''|})]\<rparr>) \<and>
   \<not> in_use
     \<lparr>active_connections = [(''c2'', 8), (''c3'', 9)],
      user_connections = [(1, {|''c2''|}), (2, {|''c3''|})]\<rparr> ''c1''"
proof -
  let ?R = "\<lparr>active_connections = [(''c1'', 7), (''c2'', 8), (''c3'', 9)],
      user_connections = [(1, {|''c1'', ''c2''|}), (2, {|''c3''|})]\<rparr>"
  let ?R' = "\<lparr>active_connections = [(''c2'', 8), (''c3'', 9)],
      user_connections = [(1, {|''c2''|}), (2, {|''c3''|})]\<rparr>"
  have wf: "well_formed ?R" by code_simp
  have known: "map_of (active_connections ?R) ''c1'' \<noteq> None" by simp
  have res: "send_message ?R ''payload'' ''c1'' (Some WebSocketDisconnect)
      (Some (OtherException ''close failed'')) = Inr (False, ?R')"
    by code_simp
  from send_message_never_raises [of ?R "''payload''" "''c1''" "Some WebSocketDisconnect"
      "Some (OtherException ''close failed'')"]
  have "\<not> in_use ?R' ''c1''"
    using wf known unfolding res by blast
  with res show ?thesis by blast
qed

text \<open>
  Claim C7. Let \<open>c\<close> be a registered connection of user \<open>u\<close> in a well-formed
  registry, and let \<open>disconnect\<close> be called for \<open>c\<close> with no user or with \<open>u\<close>.
  Whether \<open>close\<close> raises or not, the call returns normally; afterwards \<open>c\<close> is no
  key of \<open>active_connections\<close> and no member of any connection set, the entry of
  \<open>u\<close> holds the remaining connections or is gone when none remain, the connection
  count of \<open>u\<close> is smaller by exactly one, and \<open>send_message\<close> to \<open>c\<close> returns
  \<open>False\<close>.
\<close>

theorem disconnect_registered:
  assumes wf: "well_formed r"
    and a: "map_of (active_connections r) c \<noteq> None"
    and u: "map_of (user_connections r) u = Some s" "c |\<in>| s"
    and ua: "ua = None \<or> ua = Some u"
  shows "\<exists>r'. disconnect r c ua cr = Inr r' \<and>
           map_of (active_connections r') c = None \<and>
           \<not> in_use r' c \<and>
           map_of (user_connections r') u =
             (if s |-| {|c|} = {||} then None else Some (s |-| {|c|})) \<and>
           get_connection_count r (Some u) = get_connection_count r' (Some u) + 1 \<and>
           send_message r' m c sr cr' = Inr (False, r')"
proof -
  obtain r' where d: "disconnect r c ua cr = Inr r'"
    using disconnect_Inr by blast
  note mp = disconnect_owned_map [OF wf u ua d]
  have 1: "map_of (active_connections r') c = None"
    using disconnect_active [OF d] by simp
  have 2: "\<not> in_use r' c"
    by (rule disconnect_owned_not_in_use [OF wf u ua d])
  have 3: "map_of (user_connections r') u =
             (if s |-| {|c|} = {||} then None else Some (s |-| {|c|}))"
    by (simp add: mp(1))
  have 4: "get_connection_count r (Some u) = get_connection_count r' (Some u) + 1"
    using fcard_remove_member [OF u(2)] u(1) 3
    by (auto simp: get_connection_count_def)
  have 5: "send_message r' m c sr cr' = Inr (False, r')"
    using 1 by (simp add: send_message_def)
  show ?thesis using d 1 2 3 4 5 by blast
qed

theorem disconnect_registered_witness:
  "well_formed
     \<lparr>active_connections = [(''c1'', 7), (''c2'', 8), (''c3'', 9)],
      user_connections = [(1, {|''c1'', ''c2''|}), (2, {|''c3''|})]\<rparr> \<and>
   (\<exists>r'. disconnect
       \<lparr>active_connections = [(''c1'', 7), (''c2'', 8), (''c3'', 9)],
      user_connections = [(1, {|''c1'', ''c2''|}), (2, {|''c3''|})]\<rparr>
       ''c3'' None (Some (OtherException ''close failed'')) = Inr r' \<and>
     map_of (active_connections r') ''c3'' = None \<and>
     \<not> in_use r' ''c3'' \<and>
     map_of (user_connections r') 2 = None \<and>
     get_connection_count
       \<lparr>active_connections = [(''c1'', 7), (''c2'', 8), (''c3'', 9)],
      user_connections = [(1, {|''c1'', ''c2''|}), (2, {|''c3''|})]\<rparr> (Some 2) =
       get_connection_count r' (Some 2) + 1 \<and>
     send_message r' ''payload'' ''c3'' None None = Inr (False, r'))"
proof -
  let ?R = "\<lparr>active_connections = [(''c1'', 7), (''c2'', 8), (''c3'', 9)],
      user_connections = [(1, {|''c1'', ''c2''|}), (2, {|''c3''|})]\<rparr>"
  have wf: "well_formed ?R" by code_simp
  have a: "map_of (active_connections ?R) ''c3'' \<noteq> None" by simp
  have u: "map_of (user_connections ?R) 2 = Some {|''c3''|}" by simp
  have m: "''c3'' |\<in>| {|''c3''|}" by simp
  have ua: "(None :: int option) = None \<or> None = Some 2" by simp
  from disconnect_registered [OF wf a u m ua, of "Some (OtherException ''close failed'')"
      "''payload''" None None]
  show ?thesis using wf by simp
qed

text \<open>
  Claim C10, as amended. Start from the empty registry and run any sequence of
  \<open>connect\<close>, \<open>disconnect\<close>, \<open>send_message\<close> and \<open>broadcast_to_user\<close>
  calls, with any outcomes of the transport calls, in which every identifier that
  \<open>connect\<close> generates is not in use and every \<open>user_id\<close> handed to
  \<open>disconnect\<close> is the one the connection is registered with. Then the two maps are
  consistent at the end.
\<close>

theorem registry_consistent:
  "ops_ok manager ops \<Longrightarrow> consistent (run_ops manager ops)"
  using run_ops_inv [of manager ops]
  by (simp add: manager_def well_formed_def consistent_def)


theorem registry_consistent_witness:
  "ops_ok manager
     [Connect 7 1 ''c1'' None, Connect 8 1 ''c2'' None,
      Connect 9 2 ''c3'' (Some (OtherException ''refused'')),
      Send ''payload'' ''c1'' (Some WebSocketDisconnect) None,
      Connect 9 2 ''c3'' None,
      Broadcast ''payload'' 1 (\<lambda>c. Some (OtherException ''broken pipe'')) (\<lambda>c. None),
      Disconnect ''c3'' (Some 2) None] \<and>
   consistent (run_ops manager
     [Connect 7 1 ''c1'' None, Connect 8 1 ''c2'' None,
      Connect 9 2 ''c3'' (Some (OtherException ''refused'')),
      Send ''payload'' ''c1'' (Some WebSocketDisconnect) None,
      Connect 9 2 ''c3'' None,
      Broadcast ''payload'' 1 (\<lambda>c. Some (OtherException ''broken pipe'')) (\<lambda>c. None),
      Disconnect ''c3'' (Some 2) None])"
proof -
  have ok: "ops_ok manager
     [Connect 7 1 ''c1'' None, Connect 8 1 ''c2'' None,
      Connect 9 2 ''c3'' (Some (OtherException ''refused'')),
      Send ''payload'' ''c1'' (Some WebSocketDisconnect) None,
      Connect 9 2 ''c3'' None,
      Broadcast ''payload'' 1 (\<lambda>c. Some (OtherException ''broken pipe'')) (\<lambda>c. None),
      Disconnect ''c3'' (Some 2) None]"
    by code_simp
  from registry_consistent [OF ok] ok show ?thesis by blast
qed

text \<open>
  Claim C10 as stated fails: \<open>disconnect\<close> trusts a \<open>user_id\<close> that it is given.
  After user 1 has connected as \<open>c1\<close>, the call \<open>disconnect(c1, user_id=2)\<close>
  removes \<open>c1\<close> from \<open>active_connections\<close> and leaves it in the connection set of
  user 1.
\<close>

theorem registry_consistent_counterexample:
  "\<not> consistent (run_ops manager
       [Connect 7 1 ''c1'' None, Disconnect ''c1'' (Some 2) None :: string registry_op])"
  by (simp add: consistent_def manager_def connect_def disconnect_def)

section \<open>Properties of the retrieval and generation service\<close>

text \<open>
  Claim C3 does not hold of \<open>RAGService\<close>. The guard of \<open>query\<close> tests \<open>qa_chain\<close>,
  which \<open>__init__\<close> always sets, whatever the vector store holds. A service built over
  an index that was never populated runs the chain, and when the chain answers (here
  with no source documents, the index being empty), \<open>query\<close> returns that answer
  instead of raising.
\<close>

theorem query_empty_index_answers:
  "(case RAGService_init None
          (\<lambda>store question. Inr \<lparr>result = ''I do not know.'',
                                 source_documents = map snd store\<rparr>)
          \<lparr>vector_store = []\<rparr> of
      Inl e \<Rightarrow> Inl e
    | Inr rag_service \<Rightarrow> query rag_service ''What is data engineering?'') =
   Inr \<lparr>answer = ''I do not know.'', sources = []\<rparr>"
  by (simp add: RAGService_init_def query_def)

section \<open>Properties of the conversation orchestrator\<close>

text \<open>
  No call of the module passes \<open>id\<close>, so the first construction of a turn, the typing
  indicator, raises, and it does so before the \<open>try\<close> block: the function is left
  with a \<open>ValidationError\<close>, no frame has been sent and the database is as it was.
\<close>

lemma typing_msg_raises:
  "new_ChatResponse (typing_msg conv) = Inl (ValidationError ''id: field required'')"
  by (simp add: new_ChatResponse_def typing_msg_def)

lemma process_chat_message_raises:
  "process_chat_message service request user_id db now new_id =
     (Some (ValidationError ''id: field required''), [], db)"
  by (simp add: process_chat_message_def typing_msg_raises)

text \<open>
  Claim C2 does not hold of \<open>process_chat_message\<close>. With streaming requested and a
  service that answers with a text of 25 characters, which should go out as three
  partial frames, the function raises \<open>ValidationError\<close> and sends no frame at all.
\<close>

theorem streaming_turn_sends_no_frame:
  "process_chat_message
     (Inr \<lparr>qa_chain = Some (\<lambda>q. Inr \<lparr>result = ''abcdefghijklmnopqrstuvwxy'',
                                      source_documents = []\<rparr>)\<rparr>)
     \<lparr>message = ''q'', conversation_id = None, document_ids = None, stream = Some True\<rparr>
     1 \<lparr>conversations = [], messages = [], queries = []\<rparr> 5 7 =
   (Some (ValidationError ''id: field required''), [],
    \<lparr>conversations = [], messages = [], queries = []\<rparr>)"
  by (simp add: process_chat_message_def new_ChatResponse_def typing_msg_def)

text \<open>
  Claim C9 does not hold of \<open>process_chat_message\<close>. With streaming requested and an
  answer of 20 characters, twice the slice size, neither the two partial frames nor
  the additional complete frame is sent: the function raises \<open>ValidationError\<close>
  before it.
\<close>

theorem streaming_multiple_sends_no_frame:
  "process_chat_message
     (Inr \<lparr>qa_chain = Some (\<lambda>q. Inr \<lparr>result = ''abcdefghijklmnopqrst'',
                                      source_documents = []\<rparr>)\<rparr>)
     \<lparr>message = ''q'', conversation_id = None, document_ids = None, stream = Some True\<rparr>
     1 \<lparr>conversations = [], messages = [], queries = []\<rparr> 5 7 =
   (Some (ValidationError ''id: field required''), [],
    \<lparr>conversations = [], messages = [], queries = []\<rparr>)"
  by (simp add: process_chat_message_def new_ChatResponse_def typing_msg_def)

text \<open>
  Claim C4 does not hold of \<open>process_chat_message\<close>. On a turn whose pipeline fails
  (the service cannot be built), the function raises \<open>ValidationError\<close> instead of
  reporting an error frame, and the \<open>Query\<close> row of the question stays
  \<open>processing\<close>. On a turn whose pipeline would succeed, it raises in the same way:
  no assistant message is persisted, the conversation is not updated and the
  \<open>Query\<close> row is not completed.
\<close>

theorem failing_turn_reports_nothing:
  "process_chat_message (Inl (OtherException ''model runtime failure''))
     \<lparr>message = ''hello'', conversation_id = Some 4, document_ids = None,
      stream = Some False\<rparr>
     1
     \<lparr>conversations =
        [\<lparr>conv_id = 4, conv_user_id = 1, title = ''earlier'', updated_at = 2,
          conv_document_ids = None, last_question = None, source_count = None\<rparr>],
      messages = [],
      queries = [\<lparr>query_row_id = 1, query_text = ''hello'', status = PROCESSING,
                  error_message = None\<rparr>]\<rparr> 5 7 =
   (Some (ValidationError ''id: field required''), [],
    \<lparr>conversations =
        [\<lparr>conv_id = 4, conv_user_id = 1, title = ''earlier'', updated_at = 2,
          conv_document_ids = None, last_question = None, source_count = None\<rparr>],
      messages = [],
      queries = [\<lparr>query_row_id = 1, query_text = ''hello'', status = PROCESSING,
                  error_message = None\<rparr>]\<rparr>) \<and>
   process_chat_message
     (Inr \<lparr>qa_chain = Some (\<lambda>q. Inr \<lparr>result = ''An answer.'', source_documents = []\<rparr>)\<rparr>)
     \<lparr>message = ''hello'', conversation_id = Some 4, document_ids = None,
      stream = Some False\<rparr>
     1
     \<lparr>conversations =
        [\<lparr>conv_id = 4, conv_user_id = 1, title = ''earlier'', updated_at = 2,
          conv_document_ids = None, last_question = None, source_count = None\<rparr>],
      messages = [],
      queries = [\<lparr>query_row_id = 1, query_text = ''hello'', status = PROCESSING,
                  error_message = None\<rparr>]\<rparr> 5 7 =
   (Some (ValidationError ''id: field required''), [],
    \<lparr>conversations =
        [\<lparr>conv_id = 4, conv_user_id = 1, title = ''earlier'', updated_at = 2,
          conv_document_ids = None, last_question = None, source_count = None\<rparr>],
      messages = [],
      queries = [\<lparr>query_row_id = 1, query_text = ''hello'', status = PROCESSING,
                  error_message = None\<rparr>]\<rparr>)"
  by (simp add: process_chat_message_def new_ChatResponse_def typing_msg_def)

end
